theory Spec2Isabelle
  imports Main
begin

section \<open>Data model of the AIMS client\<close>

text \<open>
  The client class \<open>AIMSClientInstance\<close> talks to one collaborator, \<open>this.client\<close>, through
  \<open>client.get(descriptor)\<close>. A request descriptor is the object literal the source builds; a
  response is the decoded payload, of which the source reads one property per endpoint
  (\<open>users.users\<close>, \<open>managedAccounts.accounts\<close>, \<open>response.topology\<close>). A property that the
  payload does not carry reads as \<open>undefined\<close> in the source and is \<open>None\<close> here.
  The collaborator is a function of the descriptor: it either rejects (\<open>Inl\<close>) or answers
  with a payload (\<open>Inr\<close>). Strings are lists of 8-bit characters. Besides what the
  collaborator rejects with, a call can fail with the engine's own errors: \<open>TypeError\<close> (a
  property read of \<open>undefined\<close>, a call of something that is no function) and \<open>RangeError\<close>
  (the call stack is exhausted).
\<close>

datatype error =
    ClientError string
  | AlResponseValidationError string
  | TypeError
  | RangeError

fun is_AlResponseValidationError :: "error \<Rightarrow> bool" where
  "is_AlResponseValidationError (AlResponseValidationError msg) = True"
| "is_AlResponseValidationError (ClientError msg) = False"
| "is_AlResponseValidationError TypeError = False"
| "is_AlResponseValidationError RangeError = False"

datatype relationship = Managed | Managing

fun relationship_string :: "relationship \<Rightarrow> string" where
  "relationship_string Managed = ''managed''"
| "relationship_string Managing = ''managing''"

datatype AIMSUser = AIMSUser (id_user: string)

datatype AIMSAccount = AIMSAccount (id_account: string)

text \<open>
  A topology node carries its id and, per axis, either an array of child nodes or nothing
  (the source tests \<open>Array.isArray(a[relationship])\<close>). A decoded payload is a finite tree.
\<close>

datatype AIMSTopology =
  AIMSTopology (id_topology: string)
               (managed_prop: "AIMSTopology list option")
               (managing_prop: "AIMSTopology list option")

record query_params =
  include_role_ids :: "bool option"
  include_user_credential :: "bool option"

record request =
  service_name :: string
  account_id :: string
  path :: string
  params :: "query_params option"
  retry_count :: "nat option"
  ttl :: "nat option"

record response =
  users_prop :: "AIMSUser list option"
  accounts_prop :: "AIMSAccount list option"
  topology_prop :: "AIMSTopology option"

type_synonym AlApiClient = "request \<Rightarrow> error + response"

definition serviceName :: string where
  "serviceName = ''aims''"

section \<open>Flattening a topology: getIds\<close>

text \<open>\<open>a[relationship]\<close>: the property of a node that the axis names.\<close>

fun axis :: "relationship \<Rightarrow> AIMSTopology \<Rightarrow> AIMSTopology list option" where
  "axis Managed a = managed_prop a"
| "axis Managing a = managing_prop a"

text \<open>\<open>Array.isArray(a[relationship]) ? a[relationship] : []\<close>\<close>

definition axis_array :: "relationship \<Rightarrow> AIMSTopology \<Rightarrow> AIMSTopology list" where
  "axis_array relationship a =
     (case axis relationship a of Some kids \<Rightarrow> kids | None \<Rightarrow> [])"

lemma size_axis_array: "size_list size (axis_array relationship a) < size a"
  by (cases a; cases relationship) (auto simp: axis_array_def split: option.splits)

lemma size_member: "x \<in> set xs \<Longrightarrow> size (x::AIMSTopology) \<le> size_list size xs"
  by (induction xs) auto

text \<open>
  \<open>function getIds(accounts) { return accounts.flatMap(a => [a.id, ...getIds(...)]); }\<close>
  The closure variable \<open>relationship\<close> is the first argument.
\<close>

function getIds :: "relationship \<Rightarrow> AIMSTopology list \<Rightarrow> string list" where
  "getIds relationship accounts =
     concat (map (\<lambda>a. id_topology a # getIds relationship (axis_array relationship a)) accounts)"
  by pat_completeness auto
termination
proof (relation "measure (\<lambda>(relationship, accounts). size_list size accounts)")
  show "wf (measure (\<lambda>(relationship, accounts). size_list size accounts))" by simp
next
  fix relationship accounts and x :: AIMSTopology
  assume "x \<in> set accounts"
  then have "size x \<le> size_list size accounts" by (rule size_member)
  with size_axis_array [of relationship x]
  show "((relationship, axis_array relationship x), (relationship, accounts))
          \<in> measure (\<lambda>(relationship, accounts). size_list size accounts)"
    by simp
qed

declare getIds.simps [simp del]

text \<open>
  The reference traversal of the specification: for each node of the sequence, in order,
  the node's own id, then the flattened children along the same axis, then the next sibling.
\<close>

function preorder_ids :: "relationship \<Rightarrow> AIMSTopology list \<Rightarrow> string list" where
  "preorder_ids relationship [] = []"
| "preorder_ids relationship (node # siblings) =
     [id_topology node]
       @ preorder_ids relationship (axis_array relationship node)
       @ preorder_ids relationship siblings"
  by pat_completeness auto
termination
proof (relation "measure (\<lambda>(relationship, nodes). size_list size nodes)")
  show "wf (measure (\<lambda>(relationship, nodes). size_list size nodes))" by simp
next
  fix relationship node siblings
  from size_axis_array [of relationship node]
  show "((relationship, axis_array relationship node), (relationship, node # siblings))
          \<in> measure (\<lambda>(relationship, nodes). size_list size nodes)"
    by simp
next
  fix relationship :: relationship and node :: AIMSTopology and siblings
  show "((relationship, siblings), (relationship, node # siblings))
          \<in> measure (\<lambda>(relationship, nodes). size_list size nodes)"
    by simp
qed

text \<open>The number of nodes of a forest that lie on the chosen axis.\<close>

function axis_nodes :: "relationship \<Rightarrow> AIMSTopology list \<Rightarrow> nat" where
  "axis_nodes relationship [] = 0"
| "axis_nodes relationship (node # siblings) =
     Suc (axis_nodes relationship (axis_array relationship node)
            + axis_nodes relationship siblings)"
  by pat_completeness auto
termination
proof (relation "measure (\<lambda>(relationship, nodes). size_list size nodes)")
  show "wf (measure (\<lambda>(relationship, nodes). size_list size nodes))" by simp
next
  fix relationship node siblings
  from size_axis_array [of relationship node]
  show "((relationship, axis_array relationship node), (relationship, node # siblings))
          \<in> measure (\<lambda>(relationship, nodes). size_list size nodes)"
    by simp
next
  fix relationship :: relationship and node :: AIMSTopology and siblings
  show "((relationship, siblings), (relationship, node # siblings))
          \<in> measure (\<lambda>(relationship, nodes). size_list size nodes)"
    by simp
qed

section \<open>getIds on an object graph, with the engine's call stack\<close>

text \<open>
  The argument of \<open>getIds\<close> is an array of objects, and an object is held by reference: the
  array of an axis may contain an object that is reached again further down, or the object
  itself. A heap maps a reference to the object it holds; an axis property is an array of
  references or absent. The recursion of \<open>getIds\<close> is language-level recursion, so it runs on
  the engine's call stack: \<open>depth\<close> is the number of nested \<open>getIds\<close> calls that the stack
  still allows, and a call made with none left throws \<open>RangeError\<close>, which nothing catches.
\<close>

record topology_object =
  id_object :: string
  managed_refs :: "nat list option"
  managing_refs :: "nat list option"

type_synonym topology_heap = "nat \<Rightarrow> topology_object"

fun axis_refs :: "relationship \<Rightarrow> topology_object \<Rightarrow> nat list option" where
  "axis_refs Managed a = managed_refs a"
| "axis_refs Managing a = managing_refs a"

definition axis_refs_array :: "relationship \<Rightarrow> topology_object \<Rightarrow> nat list" where
  "axis_refs_array relationship a =
     (case axis_refs relationship a of Some refs \<Rightarrow> refs | None \<Rightarrow> [])"

text \<open>\<open>Array.prototype.flatMap\<close> with a callback that may throw: the first exception ends it.\<close>

fun flatMap :: "('a \<Rightarrow> error + 'b list) \<Rightarrow> 'a list \<Rightarrow> error + 'b list" where
  "flatMap f [] = Inr []"
| "flatMap f (x # xs) =
     (case f x of
        Inl e \<Rightarrow> Inl e
      | Inr ys \<Rightarrow> (case flatMap f xs of Inl e \<Rightarrow> Inl e | Inr zs \<Rightarrow> Inr (ys @ zs)))"

fun getIds_heap ::
  "topology_heap \<Rightarrow> nat \<Rightarrow> relationship \<Rightarrow> nat list \<Rightarrow> error + string list"
where
  "getIds_heap heap 0 relationship accounts = Inl RangeError"
| "getIds_heap heap (Suc depth) relationship accounts =
     flatMap (\<lambda>a. case getIds_heap heap depth relationship
                          (axis_refs_array relationship (heap a)) of
                     Inl e \<Rightarrow> Inl e
                   | Inr ids \<Rightarrow> Inr (id_object (heap a) # ids))
       accounts"

text \<open>
  The forest that an array of references stands for when the graph below it, followed along
  one axis, is a tree of at most \<open>height\<close> levels: each object is copied out with the children
  of that axis. There is none (\<open>None\<close>) when the graph goes deeper, as every cyclic graph does.
\<close>

definition decoded_node ::
  "relationship \<Rightarrow> topology_object \<Rightarrow> AIMSTopology list \<Rightarrow> AIMSTopology"
where
  "decoded_node relationship a kids =
     (case relationship of
        Managed \<Rightarrow> AIMSTopology (id_object a) (map_option (\<lambda>_. kids) (managed_refs a)) None
      | Managing \<Rightarrow> AIMSTopology (id_object a) None (map_option (\<lambda>_. kids) (managing_refs a)))"

fun unfold_axis ::
  "topology_heap \<Rightarrow> nat \<Rightarrow> relationship \<Rightarrow> nat list \<Rightarrow> AIMSTopology list option"
where
  "unfold_axis heap height relationship [] = Some []"
| "unfold_axis heap 0 relationship (a # accounts) = None"
| "unfold_axis heap (Suc height) relationship (a # accounts) =
     (case unfold_axis heap height relationship (axis_refs_array relationship (heap a)) of
        None \<Rightarrow> None
      | Some kids \<Rightarrow>
          (case unfold_axis heap (Suc height) relationship accounts of
             None \<Rightarrow> None
           | Some siblings \<Rightarrow> Some (decoded_node relationship (heap a) kids # siblings)))"

section \<open>The topology endpoint and getAccountsIdsByRelationship\<close>

text \<open>
  \<open>getAccountRelationshipTopology\<close> awaits \<open>client.get\<close> and returns \<open>response.topology\<close>
  unchecked: a rejected request rejects the call, a payload without the property yields
  \<open>undefined\<close> (\<open>None\<close>).
\<close>

definition topology_request :: "string \<Rightarrow> relationship \<Rightarrow> query_params option \<Rightarrow> request" where
  "topology_request accountId relationship queryParams =
     \<lparr> service_name = serviceName,
       account_id = accountId,
       path = ''/accounts/'' @ relationship_string relationship @ ''/topology'',
       params = queryParams,
       retry_count = None,
       ttl = None \<rparr>"

definition getAccountRelationshipTopology ::
  "AlApiClient \<Rightarrow> string \<Rightarrow> relationship \<Rightarrow> query_params option \<Rightarrow> error + AIMSTopology option"
where
  "getAccountRelationshipTopology client accountId relationship queryParams =
     (case client (topology_request accountId relationship queryParams) of
        Inl e \<Rightarrow> Inl e
      | Inr response \<Rightarrow> Inr (topology_prop response))"

text \<open>
  \<open>getAccountsIdsByRelationship(accountId, relationship, addCurrentId = true)\<close>. The default
  applies when the argument is omitted (\<open>None\<close>). Reading \<open>topology[relationship]\<close> of an
  undefined topology, and calling \<open>flatMap\<close> on a root axis that is not an array, both throw
  the engine's \<open>TypeError\<close>.
\<close>

definition getAccountsIdsByRelationship ::
  "AlApiClient \<Rightarrow> string \<Rightarrow> relationship \<Rightarrow> bool option \<Rightarrow> error + string list"
where
  "getAccountsIdsByRelationship client accountId relationship addCurrentId_arg =
     (let addCurrentId = (case addCurrentId_arg of None \<Rightarrow> True | Some b \<Rightarrow> b) in
      case getAccountRelationshipTopology client accountId relationship None of
        Inl e \<Rightarrow> Inl e
      | Inr None \<Rightarrow> Inl TypeError
      | Inr (Some topology) \<Rightarrow>
          (case axis relationship topology of
             None \<Rightarrow> Inl TypeError
           | Some accounts \<Rightarrow>
               (let first = (if addCurrentId then [accountId] else [])
                in Inr (first @ getIds relationship accounts))))"

section \<open>The user and account-list endpoints\<close>

text \<open>
  \<open>getUsers\<close> returns \<open>users.users\<close> and \<open>getAccountsByRelationship\<close> returns
  \<open>managedAccounts.accounts\<close>, both unchecked. The relationship of the latter is a plain
  string that is spliced into the path.
\<close>

definition getUsers ::
  "AlApiClient \<Rightarrow> string \<Rightarrow> query_params option \<Rightarrow> error + AIMSUser list option"
where
  "getUsers client accountId queryParams =
     (case client \<lparr> service_name = serviceName,
                     account_id = accountId,
                     path = ''/users'',
                     params = queryParams,
                     retry_count = None,
                     ttl = None \<rparr> of
        Inl e \<Rightarrow> Inl e
      | Inr users \<Rightarrow> Inr (users_prop users))"

definition getAccountsByRelationship ::
  "AlApiClient \<Rightarrow> string \<Rightarrow> string \<Rightarrow> query_params option
     \<Rightarrow> error + AIMSAccount list option"
where
  "getAccountsByRelationship client accountId relationship queryParams =
     (case client \<lparr> service_name = serviceName,
                     account_id = accountId,
                     path = ''/accounts/'' @ relationship,
                     params = queryParams,
                     retry_count = Some 5,
                     ttl = Some (2 * 60 * 1000) \<rparr> of
        Inl e \<Rightarrow> Inl e
      | Inr managedAccounts \<Rightarrow> Inr (accounts_prop managedAccounts))"

text \<open>The literal \<open>{ include_role_ids: false, include_user_credential: false }\<close>.\<close>

definition plain_user_params :: "query_params option" where
  "plain_user_params = Some \<lparr> include_role_ids = Some False, include_user_credential = Some False \<rparr>"

section \<open>The legacy walker: getUsersFromManagedRelationship\<close>

text \<open>
  \<open>parseInt(string, 10)\<close>: leading white space is skipped, one sign is read, then the
  longest run of decimal digits; with no digit the result is NaN (\<open>None\<close>). The value is
  the exact integer that the digits denote. The source holds a double, which is that integer
  when its magnitude is below \<open>2 ^ 53\<close> and a rounded one above: the model is the source on
  ids below that bound (\<open>exact_numeric_id\<close> below), and nothing is stated about others.
\<close>

definition isWhiteSpace :: "char \<Rightarrow> bool" where
  "isWhiteSpace c = ((of_char c :: nat) \<in> {9, 10, 11, 12, 13, 32, 160})"

definition isDigit :: "char \<Rightarrow> bool" where
  "isDigit c = (48 \<le> (of_char c :: nat) \<and> (of_char c :: nat) \<le> 57)"

definition digits_value :: "string \<Rightarrow> nat" where
  "digits_value Z = foldl (\<lambda>acc c. acc * 10 + (of_char c - 48)) 0 Z"

definition parseInt :: "string \<Rightarrow> int option" where
  "parseInt string =
     (let S = dropWhile isWhiteSpace string;
          sign = (case S of c # rest \<Rightarrow> if c = CHR ''-'' then - 1 else 1 | [] \<Rightarrow> (1::int));
          S' = (case S of c # rest \<Rightarrow> if c = CHR ''-'' \<or> c = CHR ''+'' then rest else S
                | [] \<Rightarrow> S);
          Z = takeWhile isDigit S'
      in if Z = [] then None else Some (sign * int (digits_value Z)))"

text \<open>
  The comparator \<open>(a, b) => parseInt(b.id, 10) - parseInt(a.id, 10)\<close>. A NaN difference
  counts as 0 for \<open>Array.prototype.sort\<close>.
\<close>

definition compare_ids :: "AIMSAccount \<Rightarrow> AIMSAccount \<Rightarrow> int" where
  "compare_ids a b =
     (case (parseInt (id_account b), parseInt (id_account a)) of
        (Some x, Some y) \<Rightarrow> x - y
      | _ \<Rightarrow> 0)"

text \<open>
  \<open>Array.prototype.sort(comparefn)\<close> is stable: an element moves behind another only when
  the comparator is positive. A stable insertion sort gives the order that every conforming
  engine gives for a consistent comparator. When the comparator is not consistent (an id
  that is no number among ids of different values) the language leaves the order to the
  engine, and the order computed here need not be the engine's: the model is the source on
  candidate lists whose ids all have an exact numeric value, and every statement below
  about a sorted list is about such a list.
\<close>

fun insert_sorted :: "('a \<Rightarrow> 'a \<Rightarrow> int) \<Rightarrow> 'a \<Rightarrow> 'a list \<Rightarrow> 'a list" where
  "insert_sorted comparefn x [] = [x]"
| "insert_sorted comparefn x (y # ys) =
     (if comparefn x y \<le> 0 then x # y # ys else y # insert_sorted comparefn x ys)"

definition sort_js :: "('a \<Rightarrow> 'a \<Rightarrow> int) \<Rightarrow> 'a list \<Rightarrow> 'a list" where
  "sort_js comparefn xs = foldr (insert_sorted comparefn) xs []"

text \<open>
  The walker. The asynchronous recursion can go on for ever when the managing links form a
  cycle, so the model takes fuel: \<open>None\<close> is a call that has not returned within the budget
  of levels. The inner \<open>case\<close> is the \<open>try\<close> block, whose value is \<open>users\<close> as the block
  leaves it or the exception it throws; the outer \<open>case\<close> is the \<open>catch\<close> and the final
  \<open>return users\<close>. The recursive call passes two arguments, so its \<open>failOnError\<close> is omitted.
  \<open>managing.length\<close> of an undefined list and \<open>users.concat\<close> of undefined users throw a
  TypeError inside the block.
\<close>

fun getUsersFromManagedRelationship ::
  "AlApiClient \<Rightarrow> nat \<Rightarrow> string \<Rightarrow> string option \<Rightarrow> bool option
     \<Rightarrow> (error + AIMSUser list option) option"
where
  "getUsersFromManagedRelationship client 0 leafAccountId terminalAccountId failOnError_arg = None"
| "getUsersFromManagedRelationship client (Suc fuel) leafAccountId terminalAccountId failOnError_arg =
     (let failOnError = (case failOnError_arg of None \<Rightarrow> True | Some b \<Rightarrow> b) in
      case getUsers client leafAccountId plain_user_params of
        Inl e \<Rightarrow> Some (Inl e)
      | Inr users \<Rightarrow>
          (case
             (case getAccountsByRelationship client leafAccountId ''managing'' None of
                Inl e \<Rightarrow> Some (Inl e)
              | Inr None \<Rightarrow> Some (Inl TypeError)
              | Inr (Some managing) \<Rightarrow>
                  if length managing > 0 then
                    (case sort_js compare_ids managing of
                       [] \<Rightarrow> Some (Inl TypeError)
                     | parent # _ \<Rightarrow>
                         (case getUsersFromManagedRelationship client fuel (id_account parent)
                                 terminalAccountId None of
                            None \<Rightarrow> None
                          | Some (Inl e) \<Rightarrow> Some (Inl e)
                          | Some (Inr None) \<Rightarrow> Some (Inr users)
                          | Some (Inr (Some parentUsers)) \<Rightarrow>
                              (case users of
                                 None \<Rightarrow> Some (Inl TypeError)
                               | Some own \<Rightarrow> Some (Inr (Some (own @ parentUsers))))))
                  else Some (Inr users))
           of
             None \<Rightarrow> None
           | Some (Inl e) \<Rightarrow> if failOnError then Some (Inl e) else Some (Inr users)
           | Some (Inr users') \<Rightarrow> Some (Inr users')))"

text \<open>The numeric reading of an account id, for ids that parse to a number a double holds exactly.\<close>

definition numeric_id :: "AIMSAccount \<Rightarrow> int" where
  "numeric_id a = (case parseInt (id_account a) of Some n \<Rightarrow> n | None \<Rightarrow> 0)"

definition exact_numeric_id :: "AIMSAccount \<Rightarrow> bool" where
  "exact_numeric_id a =
     (case parseInt (id_account a) of Some n \<Rightarrow> \<bar>n\<bar> < 2 ^ 53 | None \<Rightarrow> False)"

section \<open>The aggregator: getUsersFromAccounts\<close>

text \<open>
  \<open>Promise.all\<close> keeps one slot per input promise, a count of the promises still pending and
  its own settlement. When promise \<open>i\<close> fulfils, slot \<open>i\<close> is filled and the count drops;
  at zero the slots, in index order, become the result. When a promise rejects, the
  aggregate rejects with that reason unless it is settled already. An empty input is
  fulfilled at once.
\<close>

record 'a promise_all_state =
  slots :: "'a option list"
  remaining :: nat
  settled :: "(error + 'a list) option"

definition promise_all_init :: "nat \<Rightarrow> 'a promise_all_state" where
  "promise_all_init n =
     \<lparr> slots = replicate n None, remaining = n,
       settled = (if n = 0 then Some (Inr []) else None) \<rparr>"

definition promise_all_settle ::
  "(error + 'a) list \<Rightarrow> nat \<Rightarrow> 'a promise_all_state \<Rightarrow> 'a promise_all_state"
where
  "promise_all_settle outcomes i st =
     (if i < length outcomes then
        (case outcomes ! i of
           Inl e \<Rightarrow> (if settled st = None then st \<lparr> settled := Some (Inl e) \<rparr> else st)
         | Inr v \<Rightarrow>
             (let slots' = (slots st)[i := Some v];
                  remaining' = remaining st - 1
              in st \<lparr> slots := slots', remaining := remaining',
                      settled := (if settled st = None \<and> remaining' = 0
                                  then map_option Inr (those slots')
                                  else settled st) \<rparr>))
      else st)"

definition promise_all :: "nat list \<Rightarrow> (error + 'a) list \<Rightarrow> (error + 'a list) option" where
  "promise_all schedule outcomes =
     settled (fold (promise_all_settle outcomes) schedule (promise_all_init (length outcomes)))"

text \<open>
  \<open>Array.prototype.flat()\<close>, one level deep: an array element is spliced in, any other
  element (here \<open>undefined\<close>, the users of a payload without the property) stays as it is.
\<close>

definition flat :: "'a list option list \<Rightarrow> 'a option list" where
  "flat arrays = concat (map (\<lambda>r. case r of Some xs \<Rightarrow> map Some xs | None \<Rightarrow> [None]) arrays)"

text \<open>
  \<open>getUsersFromAccounts\<close>. The fetches are issued in input order; the order in which they
  complete is the environment's choice and is the parameter \<open>schedule\<close>, the indices of the
  fetches in completion order.
\<close>

definition getUsersFromAccounts ::
  "AlApiClient \<Rightarrow> nat list \<Rightarrow> string list \<Rightarrow> (error + AIMSUser option list) option"
where
  "getUsersFromAccounts client schedule accountList =
     (case promise_all schedule
             (map (\<lambda>account. getUsers client account plain_user_params) accountList) of
        None \<Rightarrow> None
      | Some (Inl e) \<Rightarrow> Some (Inl e)
      | Some (Inr results) \<Rightarrow> Some (Inr (flat results)))"

section \<open>Sample collaborators\<close>

definition tree_ABDC :: AIMSTopology where
  "tree_ABDC =
     AIMSTopology ''A''
       (Some [AIMSTopology ''B'' (Some [AIMSTopology ''D'' None None]) None,
              AIMSTopology ''C'' None None])
       None"

definition tree_diamond :: AIMSTopology where
  "tree_diamond =
     AIMSTopology ''A''
       (Some [AIMSTopology ''B'' (Some [AIMSTopology ''X'' None None]) None,
              AIMSTopology ''C'' (Some [AIMSTopology ''X'' None None]) None])
       None"

definition tree_A_under_A :: AIMSTopology where
  "tree_A_under_A = AIMSTopology ''A'' None (Some [AIMSTopology ''A'' None None])"

text \<open>
  Object graphs: at reference 0 an object A whose managing array holds reference 1, another
  object A without axes; and an object A whose managing array holds A itself.
\<close>

definition heap_A_under_A :: topology_heap where
  "heap_A_under_A ref =
     (if ref = 0 then \<lparr> id_object = ''A'', managed_refs = None, managing_refs = Some [1] \<rparr>
      else \<lparr> id_object = ''A'', managed_refs = None, managing_refs = None \<rparr>)"

definition heap_A_cycle :: topology_heap where
  "heap_A_cycle ref = \<lparr> id_object = ''A'', managed_refs = None, managing_refs = Some [0] \<rparr>"

definition client_100 :: AlApiClient where
  "client_100 req =
     (if account_id req = ''100'' \<and> path req = ''/accounts/managed/topology''
      then Inr \<lparr> users_prop = None, accounts_prop = None,
                 topology_prop = Some (AIMSTopology ''100''
                   (Some [AIMSTopology ''200'' None None, AIMSTopology ''300'' None None])
                   None) \<rparr>
      else Inl (ClientError ''404''))"

definition client_no_topology :: AlApiClient where
  "client_no_topology req = Inr \<lparr> users_prop = None, accounts_prop = None, topology_prop = None \<rparr>"

definition client_no_axis :: AlApiClient where
  "client_no_axis req =
     Inr \<lparr> users_prop = None, accounts_prop = None,
           topology_prop = Some (AIMSTopology ''100'' None None) \<rparr>"

definition users_5 :: "AIMSUser list" where "users_5 = [AIMSUser ''u5a'', AIMSUser ''u5b'']"
definition users_9 :: "AIMSUser list" where "users_9 = [AIMSUser ''u9'']"

definition client_chain :: "error option \<Rightarrow> AlApiClient" where
  "client_chain managing_of_9_failure req =
     (if path req = ''/users'' \<and> account_id req = ''5''
        then Inr \<lparr> users_prop = Some users_5, accounts_prop = None, topology_prop = None \<rparr>
      else if path req = ''/users'' \<and> account_id req = ''9''
        then Inr \<lparr> users_prop = Some users_9, accounts_prop = None, topology_prop = None \<rparr>
      else if path req = ''/accounts/managing'' \<and> account_id req = ''5''
        then Inr \<lparr> users_prop = None,
                   accounts_prop = Some [AIMSAccount ''7'', AIMSAccount ''3'', AIMSAccount ''9''],
                   topology_prop = None \<rparr>
      else if path req = ''/accounts/managing'' \<and> account_id req = ''9''
        then (case managing_of_9_failure of
                None \<Rightarrow> Inr \<lparr> users_prop = None, accounts_prop = Some [], topology_prop = None \<rparr>
              | Some e \<Rightarrow> Inl e)
      else Inl (ClientError ''404''))"

definition users_1 :: "AIMSUser list" where "users_1 = [AIMSUser ''u1'']"
definition users_2 :: "AIMSUser list" where "users_2 = [AIMSUser ''u2'']"
definition users_3 :: "AIMSUser list" where "users_3 = [AIMSUser ''u3'']"

definition client_levels :: "error option \<Rightarrow> AlApiClient" where
  "client_levels managing_of_3_failure req =
     (if path req = ''/users'' \<and> account_id req = ''1''
        then Inr \<lparr> users_prop = Some users_1, accounts_prop = None, topology_prop = None \<rparr>
      else if path req = ''/users'' \<and> account_id req = ''2''
        then Inr \<lparr> users_prop = Some users_2, accounts_prop = None, topology_prop = None \<rparr>
      else if path req = ''/users'' \<and> account_id req = ''3''
        then Inr \<lparr> users_prop = Some users_3, accounts_prop = None, topology_prop = None \<rparr>
      else if path req = ''/accounts/managing'' \<and> account_id req = ''1''
        then Inr \<lparr> users_prop = None, accounts_prop = Some [AIMSAccount ''2''],
                   topology_prop = None \<rparr>
      else if path req = ''/accounts/managing'' \<and> account_id req = ''2''
        then Inr \<lparr> users_prop = None, accounts_prop = Some [AIMSAccount ''3''],
                   topology_prop = None \<rparr>
      else if path req = ''/accounts/managing'' \<and> account_id req = ''3''
        then (case managing_of_3_failure of
                None \<Rightarrow> Inr \<lparr> users_prop = None, accounts_prop = Some [], topology_prop = None \<rparr>
              | Some e \<Rightarrow> Inl e)
      else Inl (ClientError ''404''))"

definition client_ABC :: "bool \<Rightarrow> AlApiClient" where
  "client_ABC b_fails req =
     (if path req \<noteq> ''/users'' then Inl (ClientError ''404'')
      else if account_id req = ''A''
        then Inr \<lparr> users_prop = Some [AIMSUser ''a1'', AIMSUser ''a2''],
                   accounts_prop = None, topology_prop = None \<rparr>
      else if account_id req = ''B''
        then (if b_fails then Inl (ClientError ''503'')
              else Inr \<lparr> users_prop = Some [AIMSUser ''b1''],
                         accounts_prop = None, topology_prop = None \<rparr>)
      else if account_id req = ''C''
        then Inr \<lparr> users_prop = Some [AIMSUser ''c1''],
                   accounts_prop = None, topology_prop = None \<rparr>
      else Inl (ClientError ''404''))"

definition usersOf_ABC :: "string \<Rightarrow> AIMSUser list" where
  "usersOf_ABC account =
     (if account = ''A'' then [AIMSUser ''a1'', AIMSUser ''a2'']
      else if account = ''B'' then [AIMSUser ''b1'']
      else [AIMSUser ''c1''])"

section \<open>Properties of getIds\<close>

lemma getIds_Nil [simp]: "getIds relationship [] = []"
  by (subst getIds.simps) simp

lemma getIds_Cons [simp]:
  "getIds relationship (a # accounts) =
     id_topology a # getIds relationship (axis_array relationship a)
                   @ getIds relationship accounts"
  by (subst getIds.simps, subst (3) getIds.simps) simp

lemma getIds_preorder: "getIds relationship accounts = preorder_ids relationship accounts"
  by (induction relationship accounts rule: preorder_ids.induct) simp_all

lemma length_getIds: "length (getIds relationship accounts) = axis_nodes relationship accounts"
  by (induction relationship accounts rule: axis_nodes.induct) simp_all

lemma id_decoded_node [simp]: "id_topology (decoded_node relationship a kids) = id_object a"
  by (cases relationship) (simp_all add: decoded_node_def)

lemma axis_array_decoded_node:
  "unfold_axis heap height relationship (axis_refs_array relationship a) = Some kids
   \<Longrightarrow> axis_array relationship (decoded_node relationship a kids) = kids"
  by (cases relationship)
     (auto simp: decoded_node_def axis_array_def axis_refs_array_def split: option.splits)

text \<open>
  With a stack of \<open>height + 1\<close> calls, getIds on an object graph returns exactly when the graph
  unfolds to a forest of at most \<open>height\<close> levels, and then it returns what getIds returns on
  that forest. Induction on the height, and inside it on the array.
\<close>

lemma getIds_heap_unfold:
  "getIds_heap heap (Suc height) relationship accounts =
     (case unfold_axis heap height relationship accounts of
        Some forest \<Rightarrow> Inr (getIds relationship forest)
      | None \<Rightarrow> Inl RangeError)"
proof (induction height arbitrary: accounts)
  case 0
  show ?case by (cases accounts) simp_all
next
  case (Suc height)
  show ?case
  proof (induction accounts)
    case Nil
    show ?case by simp
  next
    case (Cons a accounts)
    show ?case
    proof (cases "unfold_axis heap height relationship (axis_refs_array relationship (heap a))")
      case None
      then show ?thesis using Suc.IH [of "axis_refs_array relationship (heap a)"] by simp
    next
      case (Some kids)
      with Suc.IH [of "axis_refs_array relationship (heap a)"]
      have kid_ids: "getIds_heap heap (Suc height) relationship
                       (axis_refs_array relationship (heap a)) = Inr (getIds relationship kids)"
        by simp
      from Cons.IH have rest:
        "flatMap (\<lambda>a. case getIds_heap heap (Suc height) relationship
                              (axis_refs_array relationship (heap a)) of
                         Inl e \<Rightarrow> Inl e
                       | Inr ids \<Rightarrow> Inr (id_object (heap a) # ids)) accounts
           = (case unfold_axis heap (Suc height) relationship accounts of
                Some forest \<Rightarrow> Inr (getIds relationship forest)
              | None \<Rightarrow> Inl RangeError)"
        by simp
      show ?thesis
        using Some kid_ids rest axis_array_decoded_node [OF Some]
        by (simp split: option.splits)
    qed
  qed
qed

lemma getIds_heap_cycle: "getIds_heap heap_A_cycle depth Managing [0] = Inl RangeError"
proof (induction depth)
  case 0
  show ?case by simp
next
  case (Suc depth)
  then show ?case by (simp add: heap_A_cycle_def axis_refs_array_def)
qed

lemma getIds_heap_A_under_A:
  "getIds_heap heap_A_under_A (Suc (Suc (Suc 0))) Managing [0] = Inr [''A'', ''A'']"
  "getIds_heap heap_A_under_A (Suc (Suc 0)) Managing [0] = Inl RangeError"
  by (simp_all add: heap_A_under_A_def axis_refs_array_def)

text \<open>
  C1 (as stated): on every topology input, cyclic ones included, flattening terminates
  without stack overflow, and it cuts an axis at the first id that repeats on the active
  path, so a node A whose managing child is A flattens to exactly [A]. The source has no
  guard of either kind. A node A whose managing child is a node A flattens to [A, A], as a
  decoded tree and as an object graph on a stack of three calls. The same chain overflows a
  stack of two calls. An object A whose managing array holds A itself overflows the stack:
  here one of ten thousand calls.
\<close>

theorem C1_self_child_not_cut:
  "getIds Managing [tree_A_under_A] = [''A'', ''A'']
   \<and> getIds Managing [tree_A_under_A] \<noteq> [''A'']
   \<and> getIds_heap heap_A_under_A (Suc (Suc (Suc 0))) Managing [0] = Inr [''A'', ''A'']
   \<and> getIds_heap heap_A_under_A (Suc (Suc 0)) Managing [0] = Inl RangeError
   \<and> getIds_heap heap_A_cycle 10000 Managing [0] = Inl RangeError"
  using getIds_heap_cycle [of 10000] getIds_heap_A_under_A
  by (simp add: tree_A_under_A_def axis_array_def)

text \<open>
  C1 (amended): getIds has no repeat guard and no depth bound of its own. On a call stack
  that allows \<open>height + 1\<close> nested getIds calls (and on an empty stack never), it returns
  exactly when the object graph under its argument, followed along the axis, unfolds to a
  forest of at most \<open>height\<close> levels; it then returns the flattening of that forest, one id
  for every node with repeated ids kept, so a node A whose managing child is a node A
  flattens to [A, A]. In every other case it throws RangeError: on a chain deeper than the
  stack allows and, for every stack depth, on a cyclic graph such as an object A whose
  managing array holds A itself.
\<close>

theorem C1_getIds_returns_iff_unfolds:
  "getIds_heap heap (Suc height) relationship accounts =
     (case unfold_axis heap height relationship accounts of
        Some forest \<Rightarrow> Inr (getIds relationship forest)
      | None \<Rightarrow> Inl RangeError)
   \<and> getIds_heap heap 0 relationship accounts = Inl RangeError
   \<and> length (getIds relationship forest) = axis_nodes relationship forest
   \<and> getIds Managing [AIMSTopology x None (Some [AIMSTopology x None None])] = [x, x]
   \<and> unfold_axis heap_A_under_A (Suc (Suc 0)) Managing [0] = Some [tree_A_under_A]
   \<and> getIds_heap heap_A_under_A (Suc (Suc (Suc 0))) Managing [0] = Inr [''A'', ''A'']
   \<and> getIds_heap heap_A_under_A (Suc (Suc 0)) Managing [0] = Inl RangeError
   \<and> getIds_heap heap_A_cycle depth Managing [0] = Inl RangeError"
proof (intro conjI)
  show "getIds_heap heap (Suc height) relationship accounts =
     (case unfold_axis heap height relationship accounts of
        Some forest \<Rightarrow> Inr (getIds relationship forest)
      | None \<Rightarrow> Inl RangeError)"
    by (rule getIds_heap_unfold)
  show "getIds_heap heap 0 relationship accounts = Inl RangeError" by simp
  show "length (getIds relationship forest) = axis_nodes relationship forest"
    by (rule length_getIds)
  show "getIds Managing [AIMSTopology x None (Some [AIMSTopology x None None])] = [x, x]"
    by (simp add: axis_array_def)
  show "unfold_axis heap_A_under_A (Suc (Suc 0)) Managing [0] = Some [tree_A_under_A]"
    by (simp add: heap_A_under_A_def axis_refs_array_def tree_A_under_A_def decoded_node_def)
  show "getIds_heap heap_A_under_A (Suc (Suc (Suc 0))) Managing [0] = Inr [''A'', ''A'']"
    by (rule getIds_heap_A_under_A(1))
  show "getIds_heap heap_A_under_A (Suc (Suc 0)) Managing [0] = Inl RangeError"
    by (rule getIds_heap_A_under_A(2))
  show "getIds_heap heap_A_cycle depth Managing [0] = Inl RangeError"
    by (rule getIds_heap_cycle)
qed

text \<open>
  C2: getIds equals the reference pre-order traversal (own id, then the children along the
  same axis, then the next sibling), duplicates kept: the tree A -> [B -> [D], C] along
  managed flattens to [A, B, D, C], and a child X listed by both B and C appears twice.
\<close>

theorem C2_getIds_is_preorder:
  "getIds relationship accounts = preorder_ids relationship accounts
   \<and> getIds Managed [tree_ABDC] = [''A'', ''B'', ''D'', ''C'']
   \<and> getIds Managed [tree_diamond] = [''A'', ''B'', ''X'', ''C'', ''X'']"
  by (simp add: getIds_preorder [symmetric] tree_ABDC_def tree_diamond_def axis_array_def)

text \<open>
  C3: when the fetch returns a topology whose root carries the axis array,
  getAccountsIdsByRelationship returns the flattened axis ids, prefixed with the root account
  id exactly when addCurrentId is true (the default), and unprefixed when it is false.
\<close>

theorem C3_addCurrentId_prefix:
  assumes "getAccountRelationshipTopology client accountId relationship None = Inr (Some topology)"
    and "axis relationship topology = Some accounts"
  shows "getAccountsIdsByRelationship client accountId relationship None
           = Inr (accountId # getIds relationship accounts)
       \<and> getAccountsIdsByRelationship client accountId relationship (Some True)
           = Inr (accountId # getIds relationship accounts)
       \<and> getAccountsIdsByRelationship client accountId relationship (Some False)
           = Inr (getIds relationship accounts)"
  using assms by (simp add: getAccountsIdsByRelationship_def)

theorem C3_addCurrentId_prefix_witness:
  "getAccountsIdsByRelationship client_100 ''100'' Managed None = Inr [''100'', ''200'', ''300'']
   \<and> getAccountsIdsByRelationship client_100 ''100'' Managed (Some True)
        = Inr [''100'', ''200'', ''300'']
   \<and> getAccountsIdsByRelationship client_100 ''100'' Managed (Some False)
        = Inr [''200'', ''300'']"
proof -
  let ?t = "AIMSTopology ''100''
              (Some [AIMSTopology ''200'' None None, AIMSTopology ''300'' None None]) None"
  have fetch: "getAccountRelationshipTopology client_100 ''100'' Managed None = Inr (Some ?t)"
    by (simp add: getAccountRelationshipTopology_def topology_request_def client_100_def)
  have ax: "axis Managed ?t = Some [AIMSTopology ''200'' None None, AIMSTopology ''300'' None None]"
    by simp
  show ?thesis
    using C3_addCurrentId_prefix [OF fetch ax] by (simp add: axis_array_def)
qed

text \<open>
  C9 (as stated): a response that lacks the topology root, or an axis array, surfaces as a
  distinct validation failure. The source checks nothing: without the root the topology call
  returns undefined and no error, and the id call fails with the engine's TypeError, as it
  does for a root without the axis array; children without the axis array (200 and 300
  under 100) raise no error at all.
\<close>

theorem C9_missing_field_not_validation_error:
  "getAccountRelationshipTopology client_no_topology ''100'' Managed None = Inr None
   \<and> getAccountsIdsByRelationship client_no_topology ''100'' Managed None = Inl TypeError
   \<and> getAccountsIdsByRelationship client_no_axis ''100'' Managed None = Inl TypeError
   \<and> \<not> is_AlResponseValidationError TypeError
   \<and> getAccountsIdsByRelationship client_100 ''100'' Managed None
       = Inr [''100'', ''200'', ''300'']"
  by (simp add: getAccountRelationshipTopology_def getAccountsIdsByRelationship_def
        topology_request_def client_no_topology_def client_no_axis_def client_100_def
        axis_array_def)

text \<open>
  C9 (amended): when the request succeeds, getAccountRelationshipTopology returns the
  topology property of the response as it is, undefined when the response lacks it, with no
  error, whatever the query parameters. When the response lacks the topology root, or the
  root lacks the axis array, getAccountsIdsByRelationship rejects with a TypeError, which is
  not the validation error kind. A node whose axis array is missing below the root is read
  as a node with an empty child list: it contributes its own id and nothing else.
\<close>

theorem C9_missing_field_is_TypeError:
  "(client (topology_request accountId relationship queryParams) = Inr response
      \<longrightarrow> getAccountRelationshipTopology client accountId relationship queryParams
            = Inr (topology_prop response))
   \<and> (client (topology_request accountId relationship None) = Inr response'
      \<longrightarrow> (case topology_prop response' of None \<Rightarrow> True
           | Some t \<Rightarrow> axis relationship t = None)
      \<longrightarrow> getAccountsIdsByRelationship client accountId relationship addCurrentId
            = Inl TypeError)
   \<and> \<not> is_AlResponseValidationError TypeError
   \<and> (axis relationship a = None
      \<longrightarrow> getIds relationship (a # accounts) = id_topology a # getIds relationship accounts)"
  by (simp add: getAccountsIdsByRelationship_def getAccountRelationshipTopology_def
        axis_array_def split: option.splits)

theorem C9_missing_field_is_TypeError_witness:
  "getAccountRelationshipTopology client_no_axis ''100'' Managing None
     = Inr (Some (AIMSTopology ''100'' None None))
   \<and> getAccountRelationshipTopology client_no_topology ''100'' Managing plain_user_params
     = Inr None
   \<and> getAccountsIdsByRelationship client_no_axis ''100'' Managing (Some False) = Inl TypeError
   \<and> getAccountsIdsByRelationship client_no_topology ''100'' Managing None = Inl TypeError
   \<and> getIds Managing [AIMSTopology ''100'' None None, AIMSTopology ''200'' None None]
     = [''100'', ''200'']"
proof -
  let ?root = "AIMSTopology ''100'' None None"
  let ?response = "\<lparr> users_prop = None, accounts_prop = None, topology_prop = Some ?root \<rparr>"
  let ?empty = "\<lparr> users_prop = None, accounts_prop = None, topology_prop = None \<rparr>"
  have fetch: "client_no_axis (topology_request ''100'' Managing None) = Inr ?response"
    by (simp add: client_no_axis_def)
  have miss: "(case topology_prop ?response of None \<Rightarrow> True
               | Some t \<Rightarrow> axis Managing t = None)"
    by simp
  have leaf: "axis Managing ?root = None" by simp
  have fetch': "client_no_topology (topology_request ''100'' Managing q) = Inr ?empty" for q
    by (simp add: client_no_topology_def)
  have miss': "(case topology_prop ?empty of None \<Rightarrow> True
                | Some t \<Rightarrow> axis Managing t = None)"
    by simp
  show ?thesis
    using C9_missing_field_is_TypeError
            [of client_no_axis "''100''" Managing None ?response ?response "Some False"
                ?root "[AIMSTopology ''200'' None None]"]
          C9_missing_field_is_TypeError
            [of client_no_topology "''100''" Managing plain_user_params ?empty ?empty None
                ?root "[]"]
          fetch miss leaf fetch' miss'
    by (simp add: axis_array_def)
qed

section \<open>Properties of the walker\<close>

lemma set_insert_sorted: "set (insert_sorted comparefn x ys) = insert x (set ys)"
  by (induction ys) auto

lemma set_sort_js: "set (sort_js comparefn xs) = set xs"
  by (induction xs) (simp_all add: sort_js_def set_insert_sorted)

lemma sort_js_Cons: "sort_js comparefn (x # xs) = insert_sorted comparefn x (sort_js comparefn xs)"
  by (simp add: sort_js_def)

lemma hd_insert_sorted:
  "hd (insert_sorted comparefn x ys) = (if ys = [] \<or> comparefn x (hd ys) \<le> 0 then x else hd ys)"
  by (cases ys) simp_all

lemma sort_js_empty: "sort_js comparefn xs = [] \<longleftrightarrow> xs = []"
  using set_sort_js [of comparefn xs] by (metis set_empty)

lemma compare_ids_numeric:
  assumes "parseInt (id_account a) \<noteq> None" and "parseInt (id_account b) \<noteq> None"
  shows "compare_ids a b = numeric_id b - numeric_id a"
  using assms by (auto simp: compare_ids_def numeric_id_def)

lemma hd_sort_js_greatest:
  assumes "\<forall>m\<in>set xs. parseInt (id_account m) \<noteq> None" and "m \<in> set xs"
  shows "numeric_id m \<le> numeric_id (hd (sort_js compare_ids xs))"
  using assms
proof (induction xs arbitrary: m)
  case Nil
  then show ?case by simp
next
  case (Cons x xs)
  show ?case
  proof (cases "xs = []")
    case True
    with Cons.prems show ?thesis by (simp add: sort_js_def)
  next
    case False
    let ?h = "hd (sort_js compare_ids xs)"
    from False have ne: "sort_js compare_ids xs \<noteq> []" by (simp add: sort_js_empty)
    then have "?h \<in> set (sort_js compare_ids xs)" by simp
    then have hin: "?h \<in> set xs" by (simp add: set_sort_js)
    with Cons.prems have hp: "parseInt (id_account ?h) \<noteq> None" by simp
    from Cons.prems have xp: "parseInt (id_account x) \<noteq> None" by simp
    have cmp: "compare_ids x ?h = numeric_id ?h - numeric_id x"
      by (rule compare_ids_numeric [OF xp hp])
    have IH: "\<And>y. y \<in> set xs \<Longrightarrow> numeric_id y \<le> numeric_id ?h"
      using Cons.IH Cons.prems by simp
    show ?thesis
    proof (cases "compare_ids x ?h \<le> 0")
      case True
      then have "hd (sort_js compare_ids (x # xs)) = x"
        by (simp add: sort_js_Cons hd_insert_sorted)
      moreover from True cmp have "numeric_id ?h \<le> numeric_id x" by simp
      ultimately show ?thesis using Cons.prems(2) IH by fastforce
    next
      case no: False
      with ne have "hd (sort_js compare_ids (x # xs)) = ?h"
        by (simp add: sort_js_Cons hd_insert_sorted)
      moreover from no cmp have "numeric_id x \<le> numeric_id ?h" by simp
      ultimately show ?thesis using Cons.prems(2) IH by fastforce
    qed
  qed
qed

lemma exact_numeric_parses: "exact_numeric_id a \<Longrightarrow> parseInt (id_account a) \<noteq> None"
  by (auto simp: exact_numeric_id_def split: option.splits)

text \<open>
  On ids with an exact numeric value the comparator is consistent, and the sorted list is
  the one that every stable sort gives: in descending numeric order, with candidates of equal
  value in their original order.
\<close>

lemma compare_ids_exact:
  assumes "exact_numeric_id a" and "exact_numeric_id b"
  shows "compare_ids a b = numeric_id b - numeric_id a"
  using assms by (intro compare_ids_numeric) (simp_all add: exact_numeric_parses)

lemma sorted_insert_sorted:
  assumes "\<forall>m\<in>set (x # ys). exact_numeric_id m"
    and "sorted_wrt (\<lambda>a b. numeric_id b \<le> numeric_id a) ys"
  shows "sorted_wrt (\<lambda>a b. numeric_id b \<le> numeric_id a) (insert_sorted compare_ids x ys)"
  using assms
proof (induction ys)
  case Nil
  show ?case by simp
next
  case (Cons y ys)
  have c: "compare_ids x y = numeric_id y - numeric_id x"
    using Cons.prems(1) by (intro compare_ids_exact) simp_all
  show ?case
  proof (cases "compare_ids x y \<le> 0")
    case True
    with c Cons.prems(2) show ?thesis by fastforce
  next
    case False
    with c Cons show ?thesis by (auto simp: set_insert_sorted)
  qed
qed

lemma sorted_sort_js:
  assumes "\<forall>m\<in>set xs. exact_numeric_id m"
  shows "sorted_wrt (\<lambda>a b. numeric_id b \<le> numeric_id a) (sort_js compare_ids xs)"
  using assms
proof (induction xs)
  case Nil
  show ?case by (simp add: sort_js_def)
next
  case (Cons x xs)
  then show ?case
    by (simp add: sort_js_Cons sorted_insert_sorted set_sort_js)
qed

lemma filter_insert_sorted:
  assumes "\<forall>m\<in>set (x # ys). exact_numeric_id m"
    and "sorted_wrt (\<lambda>a b. numeric_id b \<le> numeric_id a) ys"
  shows "filter (\<lambda>a. numeric_id a = v) (insert_sorted compare_ids x ys)
           = filter (\<lambda>a. numeric_id a = v) (x # ys)"
  using assms
proof (induction ys)
  case Nil
  show ?case by simp
next
  case (Cons y ys)
  have c: "compare_ids x y = numeric_id y - numeric_id x"
    using Cons.prems(1) by (intro compare_ids_exact) simp_all
  show ?case
  proof (cases "compare_ids x y \<le> 0")
    case True
    then show ?thesis by simp
  next
    case False
    with c have lt: "numeric_id x < numeric_id y" by simp
    have IH: "filter (\<lambda>a. numeric_id a = v) (insert_sorted compare_ids x ys)
                = filter (\<lambda>a. numeric_id a = v) (x # ys)"
      using Cons by simp
    show ?thesis
    proof (cases "numeric_id x = v")
      case True
      with lt have "numeric_id y \<noteq> v" by simp
      with False IH show ?thesis by simp
    next
      case nx: False
      with False IH show ?thesis by simp
    qed
  qed
qed

lemma filter_sort_js:
  assumes "\<forall>m\<in>set xs. exact_numeric_id m"
  shows "filter (\<lambda>a. numeric_id a = v) (sort_js compare_ids xs)
           = filter (\<lambda>a. numeric_id a = v) xs"
  using assms
proof (induction xs)
  case Nil
  show ?case by (simp add: sort_js_def)
next
  case (Cons x xs)
  then show ?case
    by (simp add: sort_js_Cons filter_insert_sorted sorted_sort_js set_sort_js)
qed

text \<open>Evaluation on the sample chain 5 -> [7, 3, 9], 9 -> [].\<close>

lemma samples_exact_numeric:
  "list_all exact_numeric_id [AIMSAccount ''7'', AIMSAccount ''3'', AIMSAccount ''9'']"
  "list_all exact_numeric_id [AIMSAccount ''2'']"
  "list_all exact_numeric_id [AIMSAccount ''3'']"
  by (simp_all add: exact_numeric_id_def parseInt_def isWhiteSpace_def isDigit_def
        digits_value_def)

lemma parseInt_samples:
  "parseInt ''7'' = Some 7" "parseInt ''3'' = Some 3" "parseInt ''9'' = Some 9"
  by (simp_all add: parseInt_def isWhiteSpace_def isDigit_def digits_value_def)

lemma sort_sample:
  "sort_js compare_ids [AIMSAccount ''7'', AIMSAccount ''3'', AIMSAccount ''9'']
     = [AIMSAccount ''9'', AIMSAccount ''7'', AIMSAccount ''3'']"
  by (simp add: sort_js_def compare_ids_def parseInt_samples)

lemma chain_users:
  "getUsers (client_chain f) ''5'' plain_user_params = Inr (Some users_5)"
  "getUsers (client_chain f) ''9'' plain_user_params = Inr (Some users_9)"
  by (simp_all add: getUsers_def client_chain_def)

lemma chain_managing:
  "getAccountsByRelationship (client_chain f) ''5'' ''managing'' None
     = Inr (Some [AIMSAccount ''7'', AIMSAccount ''3'', AIMSAccount ''9''])"
  "getAccountsByRelationship (client_chain None) ''9'' ''managing'' None = Inr (Some [])"
  "getAccountsByRelationship (client_chain (Some e)) ''9'' ''managing'' None = Inl e"
  by (simp_all add: getAccountsByRelationship_def client_chain_def)

text \<open>
  C4: when the managing query returns a non-empty list (of ids that parse to numbers), the
  first element after the sort is a candidate of greatest numeric id, the walker ascends into
  that one, and when the ascent returns users the result is the own users followed by them.
\<close>

theorem C4_ascends_to_greatest_id:
  assumes own: "getUsers client leafAccountId plain_user_params = Inr (Some own)"
    and mg: "getAccountsByRelationship client leafAccountId ''managing'' None = Inr (Some managing)"
    and ne: "managing \<noteq> []"
    and num: "\<forall>m\<in>set managing. exact_numeric_id m"
    and srt: "sort_js compare_ids managing = parent # others"
    and asc: "getUsersFromManagedRelationship client fuel (id_account parent) terminalAccountId None
                = Some (Inr (Some parentUsers))"
  shows "parent \<in> set managing
       \<and> (\<forall>m\<in>set managing. numeric_id m \<le> numeric_id parent)
       \<and> getUsersFromManagedRelationship client (Suc fuel) leafAccountId terminalAccountId
           failOnError_arg = Some (Inr (Some (own @ parentUsers)))"
proof (intro conjI)
  have "parent \<in> set (sort_js compare_ids managing)" using srt by simp
  then show "parent \<in> set managing" by (simp add: set_sort_js)
next
  have parses: "\<forall>m\<in>set managing. parseInt (id_account m) \<noteq> None"
    using num by (simp add: exact_numeric_parses)
  have "parent = hd (sort_js compare_ids managing)" using srt by simp
  then show "\<forall>m\<in>set managing. numeric_id m \<le> numeric_id parent"
    using hd_sort_js_greatest [OF parses] by simp
next
  from own mg ne srt asc
  show "getUsersFromManagedRelationship client (Suc fuel) leafAccountId terminalAccountId
          failOnError_arg = Some (Inr (Some (own @ parentUsers)))"
    by simp
qed

theorem C4_ascends_to_greatest_id_witness:
  "sort_js compare_ids [AIMSAccount ''7'', AIMSAccount ''3'', AIMSAccount ''9'']
     = [AIMSAccount ''9'', AIMSAccount ''7'', AIMSAccount ''3'']
   \<and> numeric_id (AIMSAccount ''7'') \<le> numeric_id (AIMSAccount ''9'')
   \<and> getUsersFromManagedRelationship (client_chain None) (Suc (Suc 0)) ''5'' None None
       = Some (Inr (Some (users_5 @ users_9)))"
proof -
  have ne: "[AIMSAccount ''7'', AIMSAccount ''3'', AIMSAccount ''9''] \<noteq> []" by simp
  have num: "\<forall>m\<in>set [AIMSAccount ''7'', AIMSAccount ''3'', AIMSAccount ''9'']. exact_numeric_id m"
    by (simp add: exact_numeric_id_def parseInt_samples)
  have asc: "getUsersFromManagedRelationship (client_chain None) (Suc 0)
               (id_account (AIMSAccount ''9'')) None None = Some (Inr (Some users_9))"
    by (simp add: chain_users chain_managing)
  show ?thesis
    using C4_ascends_to_greatest_id
            [OF chain_users(1) chain_managing(1) ne num sort_sample asc, of None]
          sort_sample
    by simp
qed

text \<open>
  C5: every ascent is invoked with the terminal account id and the failure policy that the
  current level received. The source passes the terminal id on but leaves the policy out of
  the recursive call, so an ascent always runs with the default \<open>failOnError = true\<close>. On the
  chain 5 -> 9 whose managing query for 9 is rejected, a call for 9 with policy false absorbs
  the failure and returns the users of 9, a call for 9 with the default policy rejects, and
  the call for 5 with policy false returns the users of 5 alone: its ascent into 9 rejected.
\<close>

theorem C5_policy_not_passed_to_ascent:
  "getUsersFromManagedRelationship (client_chain (Some (ClientError ''503''))) (Suc 0) ''9''
       None (Some False) = Some (Inr (Some users_9))
   \<and> getUsersFromManagedRelationship (client_chain (Some (ClientError ''503''))) (Suc 0) ''9''
       None None = Some (Inl (ClientError ''503''))
   \<and> getUsersFromManagedRelationship (client_chain (Some (ClientError ''503''))) (Suc (Suc 0)) ''5''
       None (Some False) = Some (Inr (Some users_5))"
  by (simp add: chain_users chain_managing sort_sample)

text \<open>Evaluation on the sample chain 1 -> [2], 2 -> [3].\<close>

lemma levels_users:
  "getUsers (client_levels f) ''1'' plain_user_params = Inr (Some users_1)"
  "getUsers (client_levels f) ''2'' plain_user_params = Inr (Some users_2)"
  "getUsers (client_levels f) ''3'' plain_user_params = Inr (Some users_3)"
  by (simp_all add: getUsers_def client_levels_def)

lemma levels_managing:
  "getAccountsByRelationship (client_levels f) ''1'' ''managing'' None
     = Inr (Some [AIMSAccount ''2''])"
  "getAccountsByRelationship (client_levels f) ''2'' ''managing'' None
     = Inr (Some [AIMSAccount ''3''])"
  "getAccountsByRelationship (client_levels None) ''3'' ''managing'' None = Inr (Some [])"
  "getAccountsByRelationship (client_levels (Some e)) ''3'' ''managing'' None = Inl e"
  by (simp_all add: getAccountsByRelationship_def client_levels_def)

lemma levels_sorted:
  "sort_js compare_ids [AIMSAccount ''2''] = [AIMSAccount ''2'']"
  "sort_js compare_ids [AIMSAccount ''3''] = [AIMSAccount ''3'']"
  by (simp_all add: sort_js_def)

text \<open>
  C6: when the managing query fails at some level, a call with \<open>failOnError\<close> true rejects
  with that error, and a call with \<open>failOnError\<close> false returns the users accumulated
  through the levels up to and including the own-users fetch of the failing level. On the
  chain 1 -> 2 -> 3 the walker accumulates the users of all three levels when nothing fails,
  it rejects with the error of the managing query for 3 when the policy is true or omitted,
  and a call for 3 with policy false returns the users of 3. But the call for 1 with policy
  false returns the users of 1 alone: the ascents into 2 and 3 ran with the default policy
  and rejected, so the users of 2 and 3, fetched before the failure, are lost.
\<close>

theorem C6_tolerant_walk_loses_prior_levels:
  "getUsersFromManagedRelationship (client_levels None) (Suc (Suc (Suc 0))) ''1''
       None (Some False) = Some (Inr (Some (users_1 @ users_2 @ users_3)))
   \<and> getUsersFromManagedRelationship (client_levels (Some (ClientError ''503'')))
       (Suc (Suc (Suc 0))) ''1'' None (Some True) = Some (Inl (ClientError ''503''))
   \<and> getUsersFromManagedRelationship (client_levels (Some (ClientError ''503'')))
       (Suc (Suc (Suc 0))) ''1'' None None = Some (Inl (ClientError ''503''))
   \<and> getUsersFromManagedRelationship (client_levels (Some (ClientError ''503'')))
       (Suc 0) ''3'' None (Some False) = Some (Inr (Some users_3))
   \<and> getUsersFromManagedRelationship (client_levels (Some (ClientError ''503'')))
       (Suc (Suc (Suc 0))) ''1'' None (Some False) = Some (Inr (Some users_1))
   \<and> users_1 \<noteq> users_1 @ users_2 @ users_3"
  by (simp add: levels_users levels_managing levels_sorted users_1_def users_2_def users_3_def)

text \<open>
  C10: when the first fetch of the leaf account's own users fails, the call rejects with that
  error whatever \<open>failOnError\<close> is: the fetch stands before the \<open>try\<close> block.
\<close>

theorem C10_own_users_failure_rejects:
  assumes "getUsers client leafAccountId plain_user_params = Inl e"
  shows "getUsersFromManagedRelationship client (Suc fuel) leafAccountId terminalAccountId
           failOnError_arg = Some (Inl e)"
  using assms by simp

theorem C10_own_users_failure_rejects_witness:
  "getUsers (client_chain None) ''1'' plain_user_params = Inl (ClientError ''404'')
   \<and> getUsersFromManagedRelationship (client_chain None) (Suc 0) ''1'' None (Some False)
       = Some (Inl (ClientError ''404''))"
proof -
  have fetch: "getUsers (client_chain None) ''1'' plain_user_params = Inl (ClientError ''404'')"
    by (simp add: getUsers_def client_chain_def)
  show ?thesis
    using C10_own_users_failure_rejects [OF fetch, of 0 None "Some False"] fetch by simp
qed

section \<open>Properties of the aggregator\<close>

lemma those_map_Some: "those (map Some xs) = Some xs"
  by (induction xs) simp_all

lemma full_schedule:
  assumes "distinct ds" and "set ds \<subseteq> {..<n}" and "length ds = n"
  shows "set ds = {..<n::nat}"
proof -
  have "card (set ds) = n" using assms(1,3) by (simp add: distinct_card)
  then show ?thesis using assms(2) by (simp add: card_subset_eq)
qed

lemma short_schedule:
  assumes "distinct ds" and "set ds \<subseteq> {..<n::nat}"
  shows "length ds \<le> n"
proof -
  have "card (set ds) \<le> card {..<n}" using assms(2) by (intro card_mono) simp_all
  then show ?thesis using assms(1) by (simp add: distinct_card)
qed

lemma fold_all_success:
  assumes "distinct ds" and "set ds \<subseteq> {..<length vs}"
  shows "fold (promise_all_settle (map Inr vs)) ds (promise_all_init (length vs))
           = \<lparr> slots = map (\<lambda>i. if i \<in> set ds then Some (vs ! i) else None) [0..<length vs],
               remaining = length vs - length ds,
               settled = (if length ds = length vs then Some (Inr vs) else None) \<rparr>"
  using assms
proof (induction ds rule: rev_induct)
  case Nil
  show ?case by (auto simp: promise_all_init_def map_replicate_const)
next
  case (snoc i ds)
  let ?n = "length vs"
  from snoc.prems have d: "distinct ds" and sub: "set ds \<subseteq> {..<?n}"
    and i: "i < ?n" and fresh: "i \<notin> set ds" by auto
  from short_schedule [OF snoc.prems] have len: "length ds < ?n" by simp
  have slots_eq:
    "(map (\<lambda>j. if j \<in> set ds then Some (vs ! j) else None) [0..<?n])[i := Some (vs ! i)]
       = map (\<lambda>j. if j \<in> set (ds @ [i]) then Some (vs ! j) else None) [0..<?n]"
  proof (rule nth_equalityI)
    show "length ((map (\<lambda>j. if j \<in> set ds then Some (vs ! j) else None) [0..<?n])[i := Some (vs ! i)])
            = length (map (\<lambda>j. if j \<in> set (ds @ [i]) then Some (vs ! j) else None) [0..<?n])"
      by simp
  next
    fix k
    assume "k < length ((map (\<lambda>j. if j \<in> set ds then Some (vs ! j) else None) [0..<?n])
                          [i := Some (vs ! i)])"
    then have k: "k < ?n" by simp
    with i show "(map (\<lambda>j. if j \<in> set ds then Some (vs ! j) else None) [0..<?n])[i := Some (vs ! i)] ! k
            = map (\<lambda>j. if j \<in> set (ds @ [i]) then Some (vs ! j) else None) [0..<?n] ! k"
      by (simp add: nth_list_update)
  qed
  have done_eq: "those (map (\<lambda>j. if j \<in> set (ds @ [i]) then Some (vs ! j) else None) [0..<?n])
                   = Some vs" if "Suc (length ds) = ?n"
  proof -
    have "set (ds @ [i]) = {..<?n}"
      by (rule full_schedule [OF snoc.prems]) (simp add: that)
    then have "map (\<lambda>j. if j \<in> set (ds @ [i]) then Some (vs ! j) else None) [0..<?n]
                 = map Some (map (\<lambda>j. vs ! j) [0..<?n])"
      by simp
    then show ?thesis by (simp add: map_nth those_map_Some)
  qed
  have "fold (promise_all_settle (map Inr vs)) (ds @ [i]) (promise_all_init ?n)
          = promise_all_settle (map Inr vs) i
              (fold (promise_all_settle (map Inr vs)) ds (promise_all_init ?n))"
    by simp
  also have "\<dots> = promise_all_settle (map Inr vs) i
              \<lparr> slots = map (\<lambda>j. if j \<in> set ds then Some (vs ! j) else None) [0..<?n],
                remaining = ?n - length ds,
                settled = (if length ds = ?n then Some (Inr vs) else None) \<rparr>"
    by (simp only: snoc.IH [OF d sub])
  also have "\<dots> = \<lparr> slots = map (\<lambda>j. if j \<in> set (ds @ [i]) then Some (vs ! j) else None) [0..<?n],
                     remaining = ?n - length (ds @ [i]),
                     settled = (if length (ds @ [i]) = ?n then Some (Inr vs) else None) \<rparr>"
  proof (cases "Suc (length ds) = ?n")
    case True
    with i len show ?thesis
      using done_eq [OF True] slots_eq
      by (simp add: promise_all_settle_def Let_def)
  next
    case False
    with i len show ?thesis
      using slots_eq by (simp add: promise_all_settle_def Let_def)
  qed
  finally show ?case .
qed

lemma promise_all_success:
  assumes "distinct schedule" and "set schedule = {..<length vs}"
  shows "promise_all schedule (map Inr vs) = Some (Inr vs)"
proof -
  have "length schedule = length vs"
    using assms by (metis card_lessThan distinct_card)
  moreover have "set schedule \<subseteq> {..<length vs}" using assms(2) by simp
  ultimately show ?thesis
    using fold_all_success [OF assms(1), of vs] by (simp add: promise_all_def)
qed


lemma fold_some_failure:
  assumes bad: "j < length outcomes" "outcomes ! j = Inl e"
    and "distinct ds" and "set ds \<subseteq> {..<length outcomes}"
  shows "(let st = fold (promise_all_settle outcomes) ds (promise_all_init (length outcomes)) in
          if \<exists>i\<in>set ds. isl (outcomes ! i)
          then \<exists>i\<in>set ds. \<exists>e'. outcomes ! i = Inl e' \<and> settled st = Some (Inl e')
          else settled st = None \<and> remaining st = length outcomes - length ds)"
  using assms(3,4)
proof (induction ds rule: rev_induct)
  case Nil
  from bad(1) show ?case by (auto simp: promise_all_init_def)
next
  case (snoc i ds)
  let ?n = "length outcomes"
  let ?st = "fold (promise_all_settle outcomes) ds (promise_all_init ?n)"
  from snoc.prems have d: "distinct ds" and sub: "set ds \<subseteq> {..<?n}"
    and i: "i < ?n" and fresh: "i \<notin> set ds" by auto
  note IH = snoc.IH [OF d sub, unfolded Let_def]
  have step: "fold (promise_all_settle outcomes) (ds @ [i]) (promise_all_init ?n)
                = promise_all_settle outcomes i ?st"
    by simp
  show ?case
  proof (cases "\<exists>k\<in>set ds. isl (outcomes ! k)")
    case True
    with IH obtain k e' where k: "k \<in> set ds" "outcomes ! k = Inl e'"
      and st: "settled ?st = Some (Inl e')" by auto
    have "settled (promise_all_settle outcomes i ?st) = Some (Inl e')"
      using st i by (simp add: promise_all_settle_def Let_def split: sum.splits)
    with k True show ?thesis unfolding Let_def step by auto
  next
    case False
    with IH have st: "settled ?st = None" and rem: "remaining ?st = ?n - length ds" by auto
    show ?thesis
    proof (cases "outcomes ! i")
      case (Inl e')
      then have "settled (promise_all_settle outcomes i ?st) = Some (Inl e')"
        using st i by (simp add: promise_all_settle_def)
      with Inl show ?thesis unfolding Let_def step by auto
    next
      case (Inr v)
      with False have clean: "\<not> (\<exists>k\<in>set (ds @ [i]). isl (outcomes ! k))" by auto
      with bad have "j \<notin> set (ds @ [i])" by auto
      with snoc.prems bad(1) have "distinct (j # ds @ [i])" "set (j # ds @ [i]) \<subseteq> {..<?n}"
        by auto
      from short_schedule [OF this] have room: "Suc (Suc (length ds)) \<le> ?n" by simp
      have "settled (promise_all_settle outcomes i ?st) = None
            \<and> remaining (promise_all_settle outcomes i ?st) = ?n - length (ds @ [i])"
        using st rem i Inr room by (simp add: promise_all_settle_def Let_def)
      with clean show ?thesis unfolding Let_def step by simp
    qed
  qed
qed

lemma promise_all_failure:
  assumes "j < length outcomes" and "outcomes ! j = Inl e"
    and "distinct schedule" and "set schedule = {..<length outcomes}"
  shows "\<exists>i<length outcomes. \<exists>e'. outcomes ! i = Inl e' \<and> promise_all schedule outcomes = Some (Inl e')"
proof -
  have sub: "set schedule \<subseteq> {..<length outcomes}" using assms(4) by simp
  have "j \<in> set schedule" "isl (outcomes ! j)" using assms(1,2,4) by simp_all
  then have "\<exists>i\<in>set schedule. isl (outcomes ! i)" by blast
  with fold_some_failure [OF assms(1,2,3) sub]
  show ?thesis using assms(4) by (auto simp: promise_all_def Let_def)
qed

lemma flat_arrays: "flat (map Some xss) = map Some (concat xss)"
  by (induction xss) (simp_all add: flat_def)

text \<open>
  C7: when every per-account fetch succeeds, getUsersFromAccounts returns the concatenation of
  the accounts' user lists in the order of the input list, for every order in which the
  fetches complete.
\<close>

theorem C7_input_order_for_every_schedule:
  assumes "distinct schedule" and "set schedule = {..<length accountList}"
    and "\<forall>account\<in>set accountList. getUsers client account plain_user_params = Inr (Some (usersOf account))"
  shows "getUsersFromAccounts client schedule accountList
           = Some (Inr (map Some (concat (map usersOf accountList))))"
proof -
  let ?vs = "map (\<lambda>account. Some (usersOf account)) accountList"
  have outs: "map (\<lambda>account. getUsers client account plain_user_params) accountList = map Inr ?vs"
    using assms(3) by simp
  have "promise_all schedule (map Inr ?vs) = Some (Inr ?vs)"
    by (rule promise_all_success) (simp_all add: assms)
  then show ?thesis
    using flat_arrays [of "map usersOf accountList"]
    by (simp add: getUsersFromAccounts_def outs comp_def)
qed

theorem C7_input_order_for_every_schedule_witness:
  "getUsersFromAccounts (client_ABC False) [1, 0, 2] [''A'', ''B'', ''C'']
     = Some (Inr [Some (AIMSUser ''a1''), Some (AIMSUser ''a2''), Some (AIMSUser ''b1''),
                  Some (AIMSUser ''c1'')])"
proof -
  have d: "distinct [1, 0, 2::nat]" by simp
  have s: "set [1, 0, 2::nat] = {..<length [''A'', ''B'', ''C'']}" by auto
  have f: "\<forall>account\<in>set [''A'', ''B'', ''C''].
             getUsers (client_ABC False) account plain_user_params = Inr (Some (usersOf_ABC account))"
    by (simp add: getUsers_def client_ABC_def usersOf_ABC_def)
  show ?thesis using C7_input_order_for_every_schedule [OF d s f] by (simp add: usersOf_ABC_def)
qed

text \<open>
  C8: when the fetch for any one account fails, the aggregation rejects, with the error of a
  failed fetch, and returns no partial result, whatever the other fetches do and in whatever
  order they complete.
\<close>

theorem C8_any_failure_rejects:
  assumes "distinct schedule" and "set schedule = {..<length accountList}"
    and "account \<in> set accountList" and "getUsers client account plain_user_params = Inl e"
  shows "\<exists>failed\<in>set accountList. \<exists>e'. getUsers client failed plain_user_params = Inl e'
           \<and> getUsersFromAccounts client schedule accountList = Some (Inl e')"
proof -
  let ?outs = "map (\<lambda>account. getUsers client account plain_user_params) accountList"
  from assms(3) obtain j where j: "j < length accountList" "accountList ! j = account"
    by (auto simp: in_set_conv_nth)
  then have "j < length ?outs" "?outs ! j = Inl e" using assms(4) by simp_all
  from promise_all_failure [OF this assms(1)] assms(2)
  obtain i e' where i: "i < length accountList" "?outs ! i = Inl e'"
    and r: "promise_all schedule ?outs = Some (Inl e')" by auto
  from i have "accountList ! i \<in> set accountList"
    "getUsers client (accountList ! i) plain_user_params = Inl e'" by simp_all
  with r show ?thesis by (auto simp: getUsersFromAccounts_def)
qed

theorem C8_any_failure_rejects_witness:
  "getUsersFromAccounts (client_ABC True) [0, 2, 1] [''A'', ''B'', ''C'']
     = Some (Inl (ClientError ''503''))"
proof -
  have d: "distinct [0, 2, 1::nat]" by simp
  have s: "set [0, 2, 1::nat] = {..<length [''A'', ''B'', ''C'']}" by auto
  have m: "''B'' \<in> set [''A'', ''B'', ''C'']" by simp
  have f: "getUsers (client_ABC True) ''B'' plain_user_params = Inl (ClientError ''503'')"
    by (simp add: getUsers_def client_ABC_def)
  have ok: "getUsers (client_ABC True) ''A'' plain_user_params \<noteq> Inl e"
           "getUsers (client_ABC True) ''C'' plain_user_params \<noteq> Inl e" for e
    by (simp_all add: getUsers_def client_ABC_def)
  from C8_any_failure_rejects [OF d s m f] obtain failed e' where
    "failed \<in> set [''A'', ''B'', ''C'']"
    "getUsers (client_ABC True) failed plain_user_params = Inl e'"
    "getUsersFromAccounts (client_ABC True) [0, 2, 1] [''A'', ''B'', ''C''] = Some (Inl e')"
    by blast
  with ok f show ?thesis by auto
qed

end
